theory Spec2Isabelle
  imports Complex_Main
begin

section \<open>The simulation hook (useSimulation.js)\<close>

text \<open>
  A JavaScript object whose keys are strings is a partial map. The values of the metric
  keys are opaque to the hook, so their type is a parameter.
\<close>

type_synonym 'v jsobj = "string \<rightharpoonup> 'v"

text \<open>
  The snapshot that the server sends (\<open>state\<close> in \<open>updateFromState\<close>). A field that is
  missing, \<open>null\<close> or \<open>undefined\<close> is \<open>None\<close>. The step counter is a non-negative
  integer.
\<close>

record 'v snapshot =
  snap_step :: "nat option"
  snap_metrics :: "'v jsobj option"
  snap_activity :: "'v jsobj option"

text \<open>
  What the hook sends to the server: over the socket (\<open>socket.emit\<close>) or, when the socket
  is not connected, as a request of the REST fallback (\<open>fetch\<close>).
\<close>

datatype 'v intent =
    EmitStep nat
  | EmitReset "'v jsobj"
  | FetchStep
  | FetchReset "'v jsobj"

text \<open>
  The state of one mounted hook: the React state (\<open>connected\<close>, \<open>simState\<close>, \<open>metrics\<close>,
  \<open>error\<close>), the two refs of the run driver, and the part of the environment the hook
  acts on: the interval timers that are alive in the browser, the last timer handle the
  browser handed out, and the log of intents sent so far. The socket's own \<open>connected\<close>
  flag and the React state of that name change together (on the socket's events), so one
  field stands for both.
\<close>

record 'v hook =
  connected :: bool
  sim_step :: nat
  sim_running :: bool
  metrics :: "'v jsobj"
  error :: "string option"
  runningRef :: bool
  intervalRef :: "nat option"
  timers :: "nat list"
  last_handle :: nat
  emitted :: "'v intent list"

definition initial_metrics :: "real jsobj" where
  "initial_metrics =
     [''block_height'' \<mapsto> 0, ''hashrate'' \<mapsto> 100, ''difficulty'' \<mapsto> 1,
      ''mempool_size'' \<mapsto> 0, ''avg_fee'' \<mapsto> 1, ''blocks_mined'' \<mapsto> 0,
      ''transactions_processed'' \<mapsto> 0, ''bips_proposed'' \<mapsto> 0]"

definition useSimulation :: "real hook" where
  "useSimulation =
     \<lparr> connected = False, sim_step = 0, sim_running = False, metrics = initial_metrics,
       error = None, runningRef = False, intervalRef = None, timers = [],
       last_handle = 0, emitted = [] \<rparr>"

text \<open>
  \<open>updateFromState\<close>: a falsy \<open>state\<close> changes nothing; \<open>state.step ?? prev.step\<close> takes
  the snapshot's step unless it is null or undefined; when \<open>state.metrics\<close> is there, the
  object spread \<open>{...prev, ...state.metrics, ...(state.activity || {})}\<close> overrides from
  left to right.
\<close>

definition updateFromState :: "'v snapshot option \<Rightarrow> 'v hook \<Rightarrow> 'v hook" where
  "updateFromState st s =
     (case st of
        None \<Rightarrow> s
      | Some state \<Rightarrow>
          (let s1 = s\<lparr>sim_step := (case snap_step state of Some n \<Rightarrow> n | None \<Rightarrow> sim_step s)\<rparr>
           in case snap_metrics state of
                None \<Rightarrow> s1
              | Some m \<Rightarrow>
                  s1\<lparr>metrics := metrics s1 ++ m ++
                         (case snap_activity state of None \<Rightarrow> Map.empty | Some a \<Rightarrow> a)\<rparr>))"

text \<open>
  The steps shown after each snapshot of a sequence handed to \<open>updateFromState\<close> in order
  (the \<open>state_update\<close> handler calls it with every snapshot it receives).
\<close>

fun displayed_steps :: "'v hook \<Rightarrow> 'v snapshot option list \<Rightarrow> nat list" where
  "displayed_steps s [] = []"
| "displayed_steps s (x # xs) =
     (let s' = updateFromState x s in sim_step s' # displayed_steps s' xs)"

definition step_snapshot :: "nat \<Rightarrow> 'v snapshot option" where
  "step_snapshot n = Some \<lparr> snap_step = Some n, snap_metrics = None, snap_activity = None \<rparr>"

subsection \<open>The run driver: timers, run, stop, reset, step\<close>

text \<open>
  The browser's \<open>setInterval\<close> hands out a handle that is a number greater than zero and
  keeps the timer alive until \<open>clearInterval\<close> is called with that handle.
  \<open>if (intervalRef.current)\<close> is the truthiness of the ref: neither null nor zero.
\<close>

definition setInterval :: "'v hook \<Rightarrow> nat \<times> 'v hook" where
  "setInterval s =
     (let h = Suc (last_handle s) in (h, s\<lparr>timers := timers s @ [h], last_handle := h\<rparr>))"

definition clearInterval :: "nat \<Rightarrow> 'v hook \<Rightarrow> 'v hook" where
  "clearInterval h s = s\<lparr>timers := removeAll h (timers s)\<rparr>"

text \<open>
  The block \<open>if (intervalRef.current) { clearInterval(intervalRef.current);
  intervalRef.current = null }\<close>, which \<open>stop\<close> and \<open>reset\<close> both contain.
\<close>

definition clear_if_set :: "'v hook \<Rightarrow> 'v hook" where
  "clear_if_set s =
     (case intervalRef s of
        None \<Rightarrow> s
      | Some h \<Rightarrow> if h \<noteq> 0 then (clearInterval h s)\<lparr>intervalRef := None\<rparr> else s)"

text \<open>
  \<open>step\<close> up to its first \<open>await\<close>: the intent goes over the socket when it is connected,
  else as a request of the REST fallback.
\<close>

definition step :: "'v hook \<Rightarrow> 'v hook" where
  "step s =
     (if connected s then s\<lparr>emitted := emitted s @ [EmitStep 1]\<rparr>
      else s\<lparr>emitted := emitted s @ [FetchStep]\<rparr>)"

text \<open>
  What the awaited REST call comes back with: an exception (a rejected \<open>fetch\<close>, a body
  that is not JSON) with its message, or the envelope \<open>data\<close> with its \<open>status\<close> and
  \<open>state\<close> fields.
\<close>

datatype 'v response =
    Throws string
  | Envelope "string option" "'v snapshot option"

text \<open>The rest of \<open>step\<close> on the fallback path, run when the awaited call settles.\<close>

definition step_response :: "'v response \<Rightarrow> 'v hook \<Rightarrow> 'v hook" where
  "step_response r s =
     (case r of
        Throws msg \<Rightarrow> s\<lparr>error := Some msg\<rparr>
      | Envelope status state \<Rightarrow>
          if status = Some ''ok'' then updateFromState state s else s)"

text \<open>\<open>reset\<close> up to its first \<open>await\<close>: stop the driver if it runs, then send the intent.\<close>

definition reset :: "'v jsobj \<Rightarrow> 'v hook \<Rightarrow> 'v hook" where
  "reset params s =
     (let s1 = (if runningRef s
                then clear_if_set (s\<lparr>runningRef := False, sim_running := False\<rparr>)
                else s)
      in if connected s1 then s1\<lparr>emitted := emitted s1 @ [EmitReset params]\<rparr>
         else s1\<lparr>emitted := emitted s1 @ [FetchReset params]\<rparr>)"

text \<open>The rest of \<open>reset\<close> on the fallback path.\<close>

definition reset_response :: "'v response \<Rightarrow> 'v hook \<Rightarrow> 'v hook" where
  "reset_response r s =
     (case r of
        Throws msg \<Rightarrow> s\<lparr>error := Some msg\<rparr>
      | Envelope status state \<Rightarrow>
          if status = Some ''ok'' then updateFromState state s else s)"

definition run :: "'v hook \<Rightarrow> 'v hook" where
  "run s =
     (if runningRef s then s
      else (let s1 = s\<lparr>runningRef := True, sim_running := True\<rparr>;
                (h, s2) = setInterval s1
            in s2\<lparr>intervalRef := Some h\<rparr>))"

definition stop :: "'v hook \<Rightarrow> 'v hook" where
  "stop s = clear_if_set (s\<lparr>runningRef := False, sim_running := False\<rparr>)"

text \<open>
  The cleanup functions of the effects, run when the component that owns the hook is
  unmounted: the socket is disconnected, and the interval is cleared if the ref holds one
  (the ref itself is left as it is).
\<close>

definition unmount :: "'v hook \<Rightarrow> 'v hook" where
  "unmount s =
     (let s1 = s\<lparr>connected := False\<rparr>
      in case intervalRef s1 of
           None \<Rightarrow> s1
         | Some h \<Rightarrow> if h \<noteq> 0 then clearInterval h s1 else s1)"

text \<open>
  The callback given to \<open>setInterval\<close>, and one cadence interval (150 ms) going by: every
  timer that is alive fires its callback once.
\<close>

definition interval_callback :: "'v hook \<Rightarrow> 'v hook" where
  "interval_callback s = (if runningRef s then step s else s)"

definition tick :: "'v hook \<Rightarrow> 'v hook" where
  "tick s = fold (\<lambda>h. interval_callback) (timers s) s"

text \<open>
  Everything that can happen to a mounted hook: the four controls, a cadence interval
  going by, the socket's events, the settling of a pending REST call, and the clearing
  of the error (by the button or by the five-second timeout).
\<close>

datatype 'v event =
    Run
  | Stop
  | Step
  | Reset "'v jsobj"
  | Tick
  | StateUpdate "'v snapshot option"
  | StepResponse "'v response"
  | ResetResponse "'v response"
  | Connect
  | Disconnect
  | ConnectError string
  | ClearError

fun handle :: "'v event \<Rightarrow> 'v hook \<Rightarrow> 'v hook" where
  "handle Run s = run s"
| "handle Stop s = stop s"
| "handle Step s = step s"
| "handle (Reset params) s = reset params s"
| "handle Tick s = tick s"
| "handle (StateUpdate st) s = updateFromState st s"
| "handle (StepResponse r) s = step_response r s"
| "handle (ResetResponse r) s = reset_response r s"
| "handle Connect s = s\<lparr>connected := True, error := None\<rparr>"
| "handle Disconnect s = s\<lparr>connected := False\<rparr>"
| "handle (ConnectError msg) s =
     s\<lparr>error := Some ''Connection failed - is backend running?'', connected := False\<rparr>"
| "handle ClearError s = s\<lparr>error := None\<rparr>"

definition exec :: "'v event list \<Rightarrow> 'v hook \<Rightarrow> 'v hook" where
  "exec evs s = fold handle evs s"

text \<open>The step intents among the intents sent.\<close>

fun is_step_intent :: "'v intent \<Rightarrow> bool" where
  "is_step_intent (EmitStep n) = True"
| "is_step_intent FetchStep = True"
| "is_step_intent (EmitReset p) = False"
| "is_step_intent (FetchReset p) = False"

definition steps_issued :: "'v hook \<Rightarrow> nat" where
  "steps_issued s = length (filter is_step_intent (emitted s))"

section \<open>The history window (AnalysisTab.jsx)\<close>

text \<open>
  A number read from the metrics object. \<open>None\<close> stands for a value that is not a finite
  number: \<open>undefined\<close> (the key is missing), \<open>NaN\<close>, or an infinity; arithmetic on it
  stays there. Rounding of floating-point numbers is not modelled.
\<close>

type_synonym jsnum = "real option"

definition js_sub :: "jsnum \<Rightarrow> jsnum \<Rightarrow> jsnum" where
  "js_sub a b = (case (a, b) of (Some x, Some y) \<Rightarrow> Some (x - y) | _ \<Rightarrow> None)"

definition js_mul :: "jsnum \<Rightarrow> jsnum \<Rightarrow> jsnum" where
  "js_mul a b = (case (a, b) of (Some x, Some y) \<Rightarrow> Some (x * y) | _ \<Rightarrow> None)"

definition js_div :: "jsnum \<Rightarrow> jsnum \<Rightarrow> jsnum" where
  "js_div a b =
     (case (a, b) of (Some x, Some y) \<Rightarrow> if y = 0 then None else Some (x / y) | _ \<Rightarrow> None)"

text \<open>\<open>v || 1\<close> on a number: zero and \<open>NaN\<close> are falsy.\<close>

definition js_or_one :: "jsnum \<Rightarrow> jsnum" where
  "js_or_one v = (case v of None \<Rightarrow> Some 1 | Some x \<Rightarrow> if x = 0 then Some 1 else Some x)"

text \<open>\<open>Math.min(...data)\<close> and \<open>Math.max(...data)\<close>; of no arguments they are infinities.\<close>

fun js_min :: "jsnum list \<Rightarrow> jsnum" where
  "js_min [] = None"
| "js_min [x] = x"
| "js_min (x # y # ys) =
     (case (x, js_min (y # ys)) of (Some a, Some b) \<Rightarrow> Some (min a b) | _ \<Rightarrow> None)"

fun js_max :: "jsnum list \<Rightarrow> jsnum" where
  "js_max [] = None"
| "js_max [x] = x"
| "js_max (x # y # ys) =
     (case (x, js_max (y # ys)) of (Some a, Some b) \<Rightarrow> Some (max a b) | _ \<Rightarrow> None)"

definition MAX_HISTORY :: nat where
  "MAX_HISTORY = 100"

record entry =
  e_step :: nat
  mempool :: jsnum
  fee :: jsnum
  blocks :: jsnum
  hashrate :: jsnum
  difficulty :: jsnum

definition newEntry :: "nat \<Rightarrow> real jsobj \<Rightarrow> entry" where
  "newEntry st m =
     \<lparr> e_step = st, mempool = m ''mempool_size'', fee = m ''avg_fee'',
       blocks = m ''blocks_mined'', hashrate = m ''hashrate'',
       difficulty = m ''difficulty'' \<rparr>"

text \<open>\<open>xs.slice(-n)\<close> for a positive \<open>n\<close>: the last \<open>n\<close> elements, all of them if fewer.\<close>

definition slice_last :: "nat \<Rightarrow> 'a list \<Rightarrow> 'a list" where
  "slice_last n xs = drop (length xs - n) xs"

text \<open>The body of the first effect (track metrics history), on the previous history.\<close>

definition track_history :: "nat \<Rightarrow> real jsobj \<Rightarrow> entry list \<Rightarrow> entry list" where
  "track_history st m prev =
     (if st > 0
      then (let updated = prev @ [newEntry st m]
            in if length updated > MAX_HISTORY then slice_last MAX_HISTORY updated
               else updated)
      else prev)"

text \<open>The body of the second effect (reset history when the simulation resets).\<close>

definition reset_history :: "nat \<Rightarrow> entry list \<Rightarrow> entry list" where
  "reset_history st prev = (if st = 0 then [] else prev)"

text \<open>
  The props of one render of the component: \<open>simState.step\<close>, the \<open>metrics\<close> object, and
  the identity of that object (React compares the dependencies of an effect with
  \<open>Object.is\<close>, which on objects is identity, and \<open>setMetrics\<close> makes a new object each
  time).
\<close>

record props =
  p_step :: nat
  p_metrics :: "real jsobj"
  p_ref :: nat

text \<open>
  The component between renders: its \<open>history\<close> state and the dependencies
  \<open>[simState.step, metrics]\<close> of the last render (\<open>None\<close> before the first one).
\<close>

record tab =
  history :: "entry list"
  deps :: "(nat \<times> nat) option"

definition mounted :: tab where
  "mounted = \<lparr> history = [], deps = None \<rparr>"

text \<open>
  One render with its effects: the first effect runs when \<open>simState.step\<close> or \<open>metrics\<close>
  changed, the second when \<open>simState.step\<close> changed, both on the first render, in the
  order of the source.
\<close>

definition AnalysisTab :: "props \<Rightarrow> tab \<Rightarrow> tab" where
  "AnalysisTab p c =
     (let fire1 = (case deps c of None \<Rightarrow> True
                   | Some (st, r) \<Rightarrow> st \<noteq> p_step p \<or> r \<noteq> p_ref p);
          fire2 = (case deps c of None \<Rightarrow> True | Some (st, r) \<Rightarrow> st \<noteq> p_step p);
          h1 = (if fire1 then track_history (p_step p) (p_metrics p) (history c)
                else history c);
          h2 = (if fire2 then reset_history (p_step p) h1 else h1)
      in \<lparr> history = h2, deps = Some (p_step p, p_ref p) \<rparr>)"

definition renders :: "props list \<Rightarrow> tab \<Rightarrow> tab" where
  "renders ps c = fold AnalysisTab ps c"

subsection \<open>The views derived from the window\<close>

record trends =
  mempoolTrend :: jsnum
  feeTrend :: jsnum
  hashrateTrend :: jsnum
  dataPoints :: nat

text \<open>\<open>StatsSummary\<close>: \<open>None\<close> is the \<open>null\<close> it returns, which renders nothing.\<close>

definition StatsSummary :: "entry list option \<Rightarrow> trends option" where
  "StatsSummary hist =
     (case hist of
        None \<Rightarrow> None
      | Some [] \<Rightarrow> None
      | Some (e # es) \<Rightarrow>
          (let latest = last (e # es); first = e
           in Some \<lparr> mempoolTrend = js_sub (mempool latest) (mempool first),
                     feeTrend = js_sub (fee latest) (fee first),
                     hashrateTrend =
                       js_mul (js_div (js_sub (hashrate latest) (hashrate first))
                                      (hashrate first)) (Some 100),
                     dataPoints = length (e # es) \<rparr>))"

text \<open>
  \<open>MiniChart\<close>: the placeholder, or the line chart with the values its scales are
  computed from (the SVG drawn from them and the formatting of the labels are left out).
\<close>

datatype chart_view =
    NoDataYet
  | LineChart (minVal: jsnum) (maxVal: jsnum) (range: jsnum) (currentVal: jsnum) (count: nat)

definition MiniChart :: "jsnum list option \<Rightarrow> chart_view" where
  "MiniChart data =
     (case data of
        None \<Rightarrow> NoDataYet
      | Some [] \<Rightarrow> NoDataYet
      | Some (d # ds) \<Rightarrow>
          (let lo = js_min (d # ds); hi = js_max (d # ds)
           in LineChart lo hi (js_or_one (js_sub hi lo)) (last (d # ds)) (length (d # ds))))"

datatype corr_view =
    NeedMoreData
  | Correlation "jsnum list" "jsnum list"

definition normalize :: "jsnum list \<Rightarrow> jsnum list" where
  "normalize arr =
     (let lo = js_min arr; hi = js_max arr; rng = js_or_one (js_sub hi lo)
      in map (\<lambda>v. js_div (js_sub v lo) rng) arr)"

definition CorrelationChart :: "jsnum list option \<Rightarrow> jsnum list option \<Rightarrow> corr_view" where
  "CorrelationChart data1 data2 =
     (case (data1, data2) of
        (Some d1, Some d2) \<Rightarrow>
          if length d1 < 2 then NeedMoreData else Correlation (normalize d1) (normalize d2)
      | _ \<Rightarrow> NeedMoreData)"

text \<open>What the component shows for a history: the summary, the four charts, the correlation.\<close>

record analysis_view =
  summary :: "trends option"
  mempoolChart :: chart_view
  feeChart :: chart_view
  blocksChart :: chart_view
  hashrateChart :: chart_view
  correlation :: corr_view

definition mempoolData :: "entry list \<Rightarrow> jsnum list" where
  "mempoolData h = map mempool h"

definition feeData :: "entry list \<Rightarrow> jsnum list" where
  "feeData h = map fee h"

definition blocksData :: "entry list \<Rightarrow> jsnum list" where
  "blocksData h = map blocks h"

definition hashrateData :: "entry list \<Rightarrow> jsnum list" where
  "hashrateData h = map hashrate h"

definition difficultyData :: "entry list \<Rightarrow> jsnum list" where
  "difficultyData h = map difficulty h"

definition AnalysisTab_view :: "entry list \<Rightarrow> analysis_view" where
  "AnalysisTab_view h =
     \<lparr> summary = StatsSummary (Some h),
       mempoolChart = MiniChart (Some (mempoolData h)),
       feeChart = MiniChart (Some (feeData h)),
       blocksChart = MiniChart (Some (blocksData h)),
       hashrateChart = MiniChart (Some (hashrateData h)),
       correlation = CorrelationChart (Some (hashrateData h)) (Some (difficultyData h)) \<rparr>"

section \<open>The hypothesis bar and the scenario selector (App.jsx)\<close>

text \<open>A scenario as the app holds it; a \<open>hypothesis\<close> that is null or missing is \<open>None\<close>.\<close>

record scenario =
  sc_id :: string
  sc_name :: string
  hypothesis :: "string option"

text \<open>
  The bar under the header:
  \<open>currentScenario.id !== 'baseline' && currentScenario.hypothesis && (...)\<close>, where a
  null and an empty string are falsy. When it is shown it carries the scenario's name and
  its hypothesis.
\<close>

definition hypothesis_bar :: "scenario \<Rightarrow> (string \<times> string) option" where
  "hypothesis_bar currentScenario =
     (if sc_id currentScenario \<noteq> ''baseline''
      then (case hypothesis currentScenario of
              None \<Rightarrow> None
            | Some h \<Rightarrow> if h = [] then None else Some (sc_name currentScenario, h))
      else None)"

text \<open>
  The tooltip of the scenario selector in \<open>Header\<close>. The selector is there when
  \<open>scenarios.length > 0\<close>, and its title is
  \<open>currentScenario.hypothesis || 'Select a scenario'\<close>, whatever the scenario's id.
  \<open>None\<close> is no selector.
\<close>

definition selector_title :: "scenario list \<Rightarrow> scenario \<Rightarrow> string option" where
  "selector_title scenarios currentScenario =
     (if length scenarios > 0
      then Some (case hypothesis currentScenario of
                   None \<Rightarrow> ''Select a scenario''
                 | Some h \<Rightarrow> if h = [] then ''Select a scenario'' else h)
      else None)"

section \<open>Example inputs and invariants\<close>

text \<open>Three snapshots that carry only a step, the second lower than the first.\<close>

definition regress_snapshots :: "real snapshot option list" where
  "regress_snapshots = [step_snapshot 5, step_snapshot 3, step_snapshot 6]"

text \<open>A snapshot with a metrics object and an activity object on different keys.\<close>

definition activity_snapshot :: "real snapshot" where
  "activity_snapshot =
     \<lparr> snap_step = Some 1, snap_metrics = Some [''block_height'' \<mapsto> 1],
       snap_activity = Some [''hashrate'' \<mapsto> 7] \<rparr>"

definition fee_spike :: scenario where
  "fee_spike =
     \<lparr> sc_id = ''fee_spike'', sc_name = ''Fee Spike'',
       hypothesis = Some ''Demand shock raises fees'' \<rparr>"

text \<open>The default scenario, with a hypothesis of its own.\<close>

definition baseline_scenario :: scenario where
  "baseline_scenario =
     \<lparr> sc_id = ''baseline'', sc_name = ''Baseline'',
       hypothesis = Some ''Normal network conditions'' \<rparr>"

text \<open>The props of a render at step \<open>n\<close> with the initial metrics in a new object.\<close>

definition numbered_props :: "nat \<Rightarrow> props" where
  "numbered_props n = \<lparr> p_step = n, p_metrics = initial_metrics, p_ref = n \<rparr>"

definition entry_of :: "props \<Rightarrow> entry" where
  "entry_of p = newEntry (p_step p) (p_metrics p)"

text \<open>
  The run driver between events: the \<open>running\<close> flag shown follows the ref, and the ref
  holds the handle of the one live timer exactly while the driver runs.
\<close>

definition driver_inv :: "'v hook \<Rightarrow> bool" where
  "driver_inv s =
     (sim_running s = runningRef s \<and>
      (case intervalRef s of
         None \<Rightarrow> \<not> runningRef s \<and> timers s = []
       | Some h \<Rightarrow> runningRef s \<and> h \<noteq> 0 \<and> timers s = [h]))"

text \<open>
  The history window between renders: it is empty before the first render, and afterwards
  exactly when the step last rendered is 0.
\<close>

definition tab_inv :: "tab \<Rightarrow> bool" where
  "tab_inv c =
     (case deps c of
        None \<Rightarrow> history c = []
      | Some (st, r) \<Rightarrow> (st = 0) = (history c = []))"

section \<open>Applying snapshots\<close>

lemma sim_step_updateFromState:
  "sim_step (updateFromState (Some st) s) =
     (case snap_step st of Some n \<Rightarrow> n | None \<Rightarrow> sim_step s)"
  by (simp add: updateFromState_def Let_def split: option.splits)

lemma displayed_steps_step_snapshots:
  "displayed_steps s (map step_snapshot ns) = ns"
  by (induction ns arbitrary: s) (simp_all add: step_snapshot_def updateFromState_def Let_def)

text \<open>
  C1 as stated fails: \<open>updateFromState\<close> has no guard on the step. Snapshots with the
  steps 5, 3, 6 delivered in that order show 5, then 3, then 6: the step shown goes down,
  and the sequence is not 5, 6.
\<close>

theorem stale_snapshot_counterexample:
  "displayed_steps useSimulation regress_snapshots = [5, 3, 6] \<and>
   displayed_steps useSimulation regress_snapshots \<noteq> [5, 6]"
  by (simp add: regress_snapshots_def step_snapshot_def updateFromState_def Let_def)

text \<open>
  C1, amended: after \<open>updateFromState\<close> is given a snapshot, the step shown is the
  snapshot's step when it carries one and the step shown before otherwise, whether it is
  lower or not; so for every sequence of snapshots that carry a step, the steps shown are
  the snapshots' steps in the order of delivery (5, 3, 6 for 5, 3, 6).
\<close>

theorem displayed_step_follows_snapshot:
  "sim_step (updateFromState (Some st) s) =
     (case snap_step st of Some n \<Rightarrow> n | None \<Rightarrow> sim_step s) \<and>
   displayed_steps t (map step_snapshot ns) = ns"
  by (simp add: sim_step_updateFromState displayed_steps_step_snapshots)

theorem displayed_step_follows_snapshot_witness:
  "sim_step (updateFromState (step_snapshot 3) (updateFromState (step_snapshot 5) useSimulation)) = 3 \<and>
   displayed_steps useSimulation (map step_snapshot [5, 3, 6]) = [5, 3, 6]"
  using displayed_step_follows_snapshot
    [where st = "\<lparr> snap_step = Some 3, snap_metrics = None, snap_activity = None \<rparr>"
       and s = "updateFromState (step_snapshot 5) useSimulation"
       and t = useSimulation and ns = "[5, 3, 6]"]
  by (simp add: step_snapshot_def)

text \<open>
  C2 as stated fails: the keys of the snapshot's activity object are merged as well, over
  those of its metrics object. Here \<open>hashrate\<close> is not a key of the metrics object of the
  snapshot, and its value is replaced (100 before, 7 after).
\<close>

theorem metrics_merge_counterexample:
  "snap_metrics activity_snapshot = Some [''block_height'' \<mapsto> 1] \<and>
   [''block_height'' \<mapsto> (1::real)] ''hashrate'' = None \<and>
   metrics useSimulation ''hashrate'' = Some 100 \<and>
   metrics (updateFromState (Some activity_snapshot) useSimulation) ''hashrate'' = Some 7"
  by (simp add: activity_snapshot_def updateFromState_def Let_def useSimulation_def
      initial_metrics_def)

text \<open>
  C2, amended: \<open>updateFromState\<close> sets the step shown to the snapshot's step when that
  field is present and keeps the step shown before when it is absent. When the snapshot
  has no metrics object the metrics are unchanged. When it has one, each key takes the
  value of the snapshot's activity object if that has the key, else the value of the
  metrics object if that has the key, and else keeps its value.
\<close>

theorem updateFromState_merge:
  "sim_step (updateFromState (Some st) s) =
     (case snap_step st of Some n \<Rightarrow> n | None \<Rightarrow> sim_step s) \<and>
   (snap_metrics st = None \<longrightarrow> metrics (updateFromState (Some st) s) = metrics s) \<and>
   (\<forall>m. snap_metrics st = Some m \<longrightarrow>
      metrics (updateFromState (Some st) s) k =
        (case (case snap_activity st of None \<Rightarrow> None | Some a \<Rightarrow> a k) of
           Some v \<Rightarrow> Some v
         | None \<Rightarrow> (case m k of Some v \<Rightarrow> Some v | None \<Rightarrow> metrics s k)))"
  by (auto simp add: updateFromState_def Let_def map_add_def split: option.splits)

theorem updateFromState_merge_witness:
  "sim_step (updateFromState (Some activity_snapshot) useSimulation) = 1 \<and>
   metrics (updateFromState (Some activity_snapshot) useSimulation) ''block_height'' = Some 1 \<and>
   metrics (updateFromState (Some activity_snapshot) useSimulation) ''difficulty'' = Some 1"
  using updateFromState_merge [of activity_snapshot useSimulation "''block_height''"]
        updateFromState_merge [of activity_snapshot useSimulation "''difficulty''"]
  by (simp add: activity_snapshot_def useSimulation_def initial_metrics_def)

section \<open>The run driver\<close>

lemma driver_inv_init: "driver_inv useSimulation"
  by (simp add: driver_inv_def useSimulation_def)

lemma driver_inv_updateFromState: "driver_inv s \<Longrightarrow> driver_inv (updateFromState st s)"
  by (auto simp add: driver_inv_def updateFromState_def Let_def split: option.splits)

lemma driver_inv_step: "driver_inv s \<Longrightarrow> driver_inv (step s)"
  by (auto simp add: driver_inv_def step_def split: option.splits)

lemma driver_inv_error: "driver_inv s \<Longrightarrow> driver_inv (s\<lparr>error := e\<rparr>)"
  by (simp add: driver_inv_def split: option.splits)

lemma driver_inv_step_response: "driver_inv s \<Longrightarrow> driver_inv (step_response r s)"
  by (cases r) (simp_all add: step_response_def driver_inv_updateFromState driver_inv_error)

lemma driver_inv_reset_response: "driver_inv s \<Longrightarrow> driver_inv (reset_response r s)"
  by (cases r) (simp_all add: reset_response_def driver_inv_updateFromState driver_inv_error)

lemma driver_inv_run: "driver_inv s \<Longrightarrow> driver_inv (run s)"
  by (auto simp add: driver_inv_def run_def setInterval_def Let_def split: option.splits)

lemma stop_stopped:
  "driver_inv s \<Longrightarrow>
   stop s = s\<lparr>runningRef := False, sim_running := False, intervalRef := None, timers := []\<rparr>"
  by (auto simp add: driver_inv_def stop_def clear_if_set_def clearInterval_def
      split: option.splits)

lemma driver_inv_stop: "driver_inv s \<Longrightarrow> driver_inv (stop s)"
  by (simp add: stop_stopped) (simp add: driver_inv_def)

lemma emitted_stop: "emitted (stop s) = emitted s"
  by (simp add: stop_def clear_if_set_def clearInterval_def split: option.splits)

lemma reset_running:
  "runningRef s \<Longrightarrow>
   reset params s =
     (stop s)\<lparr>emitted := emitted s @ [if connected s then EmitReset params else FetchReset params]\<rparr>"
  by (simp add: reset_def stop_def clear_if_set_def clearInterval_def Let_def
      split: option.splits)

lemma reset_stopped:
  "\<not> runningRef s \<Longrightarrow>
   reset params s =
     s\<lparr>emitted := emitted s @ [if connected s then EmitReset params else FetchReset params]\<rparr>"
  by (simp add: reset_def Let_def)

lemma driver_inv_emitted: "driver_inv s \<Longrightarrow> driver_inv (s\<lparr>emitted := es\<rparr>)"
  by (simp add: driver_inv_def split: option.splits)

lemma driver_inv_reset: "driver_inv s \<Longrightarrow> driver_inv (reset params s)"
  by (cases "runningRef s")
     (simp_all add: reset_running reset_stopped driver_inv_emitted driver_inv_stop)

lemma tick_running: "driver_inv s \<Longrightarrow> runningRef s \<Longrightarrow> tick s = step s"
  by (auto simp add: driver_inv_def tick_def interval_callback_def split: option.splits)

lemma tick_no_timers: "timers s = [] \<Longrightarrow> tick s = s"
  by (simp add: tick_def)

lemma not_running_tick: "\<not> runningRef s \<Longrightarrow> tick s = s"
proof -
  have "\<not> runningRef s \<Longrightarrow> fold (\<lambda>h. interval_callback) ts s = s" for ts :: "nat list"
    by (induction ts) (simp_all add: interval_callback_def)
  then show "\<not> runningRef s \<Longrightarrow> tick s = s"
    by (simp add: tick_def)
qed

lemma driver_inv_tick: "driver_inv s \<Longrightarrow> driver_inv (tick s)"
  by (cases "runningRef s") (simp_all add: tick_running not_running_tick driver_inv_step)

lemma driver_inv_connected: "driver_inv s \<Longrightarrow> driver_inv (s\<lparr>connected := b\<rparr>)"
  by (simp add: driver_inv_def split: option.splits)

lemma driver_inv_handle: "driver_inv s \<Longrightarrow> driver_inv (handle e s)"
  by (cases e)
     (simp_all add: driver_inv_run driver_inv_stop driver_inv_step driver_inv_reset
        driver_inv_tick driver_inv_updateFromState driver_inv_step_response
        driver_inv_reset_response driver_inv_error driver_inv_connected)

lemma driver_inv_exec: "driver_inv s \<Longrightarrow> driver_inv (exec evs s)"
  unfolding exec_def by (induction evs arbitrary: s) (simp_all add: driver_inv_handle)

lemma driver_inv_reachable: "driver_inv (exec evs useSimulation)"
  by (simp add: driver_inv_exec driver_inv_init)

lemma run_running: "runningRef s \<Longrightarrow> run s = s"
  by (simp add: run_def)

lemma runningRef_run: "runningRef (run s)"
  by (simp add: run_def setInterval_def Let_def)

lemma runningRef_updateFromState: "runningRef (updateFromState st s) = runningRef s"
  by (simp add: updateFromState_def Let_def split: option.splits)

lemma runningRef_step_response: "runningRef (step_response r s) = runningRef s"
  by (cases r) (simp_all add: step_response_def runningRef_updateFromState)

lemma runningRef_reset_response: "runningRef (reset_response r s) = runningRef s"
  by (cases r) (simp_all add: reset_response_def runningRef_updateFromState)

lemma not_running_stop: "\<not> runningRef (stop s)"
  by (simp add: stop_def clear_if_set_def clearInterval_def split: option.splits)

lemma not_running_reset: "\<not> runningRef s \<Longrightarrow> \<not> runningRef (reset params s)"
  by (simp add: reset_stopped)

lemma not_running_handle:
  "e \<noteq> Run \<Longrightarrow> \<not> runningRef s \<Longrightarrow> \<not> runningRef (handle e s)"
  by (cases e)
     (simp_all add: not_running_tick not_running_stop not_running_reset step_def
        runningRef_updateFromState runningRef_step_response runningRef_reset_response)

lemma not_running_exec:
  "Run \<notin> set evs \<Longrightarrow> \<not> runningRef s \<Longrightarrow> \<not> runningRef (exec evs s)"
proof (induction evs arbitrary: s)
  case Nil
  then show ?case by (simp add: exec_def)
next
  case (Cons e evs)
  from Cons.prems(1) have ne: "e \<noteq> Run" and rest: "Run \<notin> set evs"
    by (simp_all del: event.simps) blast
  have "\<not> runningRef (handle e s)"
    using ne Cons.prems(2) by (rule not_running_handle)
  with rest have "\<not> runningRef (exec evs (handle e s))"
    by (rule Cons.IH)
  then show ?case by (simp add: exec_def)
qed

lemma stopped_no_timers: "driver_inv s \<Longrightarrow> \<not> runningRef s \<Longrightarrow> timers s = []"
  by (auto simp add: driver_inv_def split: option.splits)

lemma ticks_stopped: "\<not> runningRef s \<Longrightarrow> exec (replicate n Tick) s = s"
  unfolding exec_def by (induction n) (simp_all add: not_running_tick)

lemma ticks_no_timers: "timers s = [] \<Longrightarrow> exec (replicate n Tick) s = s"
  unfolding exec_def by (induction n) (simp_all add: tick_no_timers)

lemma steps_issued_step: "steps_issued (step s) = Suc (steps_issued s)"
  by (simp add: steps_issued_def step_def)

lemma run_timers: "driver_inv s \<Longrightarrow> length (timers (run s)) = 1"
  using driver_inv_run [of s] runningRef_run [of s]
  by (auto simp add: driver_inv_def split: option.splits)

text \<open>
  C4: \<open>run\<close> while the driver runs changes nothing, so a second \<open>run\<close> makes no second
  timer; after \<open>run\<close> is called twice in any state the hook can reach, one timer is
  alive and one cadence interval issues exactly one step intent.
\<close>

theorem run_idempotent:
  "(runningRef s \<longrightarrow> run s = s) \<and>
   run (run r) = run r \<and>
   length (timers (run (run (exec evs useSimulation)))) = 1 \<and>
   steps_issued (tick (run (run (exec evs useSimulation)))) =
     steps_issued (run (run (exec evs useSimulation))) + 1"
proof -
  let ?r = "exec evs useSimulation"
  have twice: "run (run x) = run x" for x :: "real hook"
    by (simp add: run_running runningRef_run)
  have twice': "run (run r) = run r"
    by (simp add: run_running runningRef_run)
  have inv: "driver_inv (run ?r)"
    by (simp add: driver_inv_run driver_inv_reachable)
  have "tick (run ?r) = step (run ?r)"
    using inv by (simp add: tick_running runningRef_run)
  then have "steps_issued (tick (run ?r)) = steps_issued (run ?r) + 1"
    by (simp add: steps_issued_step)
  moreover have "length (timers (run ?r)) = 1"
    by (simp add: run_timers driver_inv_reachable)
  ultimately show ?thesis
    by (simp add: twice twice' run_running)
qed

theorem run_idempotent_witness:
  "runningRef (run useSimulation) \<and>
   run (run useSimulation) = run useSimulation \<and>
   timers (run (run useSimulation)) = [1] \<and>
   steps_issued (tick (run (run useSimulation))) = 1"
  using run_idempotent [of "run useSimulation" useSimulation "[]"]
  by (simp add: exec_def run_def setInterval_def useSimulation_def Let_def steps_issued_def)

text \<open>
  C5: in every state the hook can reach, \<open>stop\<close> leaves the driver stopped with the ref
  empty and no timer alive, so cadence intervals going by issue nothing, and as long as
  \<open>run\<close> is not called again no timer is alive and an interval going by changes nothing;
  \<open>stop\<close> on a stopped driver changes nothing; after the unmount cleanup no timer is
  alive and intervals going by change nothing.
\<close>

theorem stop_and_unmount_cancel_timer:
  "\<not> runningRef (stop (exec evs useSimulation)) \<and>
   \<not> sim_running (stop (exec evs useSimulation)) \<and>
   intervalRef (stop (exec evs useSimulation)) = None \<and>
   timers (stop (exec evs useSimulation)) = [] \<and>
   exec (replicate n Tick) (stop (exec evs useSimulation)) = stop (exec evs useSimulation) \<and>
   (Run \<notin> set evs' \<longrightarrow>
      timers (exec evs' (stop (exec evs useSimulation))) = [] \<and>
      tick (exec evs' (stop (exec evs useSimulation))) = exec evs' (stop (exec evs useSimulation))) \<and>
   (\<not> runningRef (exec evs useSimulation) \<longrightarrow>
      stop (exec evs useSimulation) = exec evs useSimulation) \<and>
   timers (unmount (exec evs useSimulation)) = [] \<and>
   exec (replicate n Tick) (unmount (exec evs useSimulation)) = unmount (exec evs useSimulation)"
proof -
  let ?s = "exec evs useSimulation"
  have inv: "driver_inv ?s"
    by (rule driver_inv_reachable)
  have st: "stop ?s = ?s\<lparr>runningRef := False, sim_running := False, intervalRef := None, timers := []\<rparr>"
    using inv by (rule stop_stopped)
  have nr: "\<not> runningRef (stop ?s)"
    by (rule not_running_stop)
  have later: "timers (exec evs' (stop ?s)) = [] \<and> tick (exec evs' (stop ?s)) = exec evs' (stop ?s)"
    if "Run \<notin> set evs'"
  proof -
    have "\<not> runningRef (exec evs' (stop ?s))"
      using that nr by (rule not_running_exec)
    moreover have "driver_inv (exec evs' (stop ?s))"
      by (simp add: driver_inv_exec driver_inv_stop inv)
    ultimately show ?thesis
      by (simp add: stopped_no_timers not_running_tick)
  qed
  have noop: "stop ?s = ?s" if "\<not> runningRef ?s"
    using inv that by (auto simp add: st driver_inv_def split: option.splits)
  have un: "timers (unmount ?s) = []"
    using inv
    by (auto simp add: unmount_def clearInterval_def driver_inv_def Let_def split: option.splits)
  show ?thesis
    using nr later noop un
    by (simp add: st ticks_stopped ticks_no_timers)
qed

theorem stop_and_unmount_cancel_timer_witness:
  "timers (exec [Run] useSimulation) = [1] \<and>
   timers (stop (exec [Run] useSimulation)) = [] \<and>
   tick (exec [Step, Tick] (stop (exec [Run] useSimulation))) =
     exec [Step, Tick] (stop (exec [Run] useSimulation)) \<and>
   stop (exec [Run, Stop] useSimulation) = exec [Run, Stop] useSimulation \<and>
   timers (unmount (exec [Run] useSimulation)) = []"
  using stop_and_unmount_cancel_timer [of "[Run]" 1 "[Step, Tick]"]
        stop_and_unmount_cancel_timer [of "[Run, Stop]" 1 "[]"]
  by (simp add: exec_def run_def stop_def clear_if_set_def clearInterval_def setInterval_def
      useSimulation_def Let_def)

text \<open>
  C10: in every state the hook can reach, after \<open>reset\<close> the driver is stopped, the ref
  is empty and no timer is alive, so cadence intervals going by issue nothing. When the
  driver runs, \<open>reset\<close> is \<open>stop\<close> followed by the sending of the reset intent; when it
  is stopped, \<open>reset\<close> only sends the intent and leaves the rest of the state as it is.
\<close>

theorem reset_stops_driver:
  "\<not> runningRef (reset params (exec evs useSimulation)) \<and>
   \<not> sim_running (reset params (exec evs useSimulation)) \<and>
   intervalRef (reset params (exec evs useSimulation)) = None \<and>
   timers (reset params (exec evs useSimulation)) = [] \<and>
   exec (replicate n Tick) (reset params (exec evs useSimulation)) =
     reset params (exec evs useSimulation) \<and>
   (runningRef s \<longrightarrow>
      reset params s =
        (stop s)\<lparr>emitted := emitted (stop s) @
           [if connected s then EmitReset params else FetchReset params]\<rparr>) \<and>
   (\<not> runningRef s \<longrightarrow>
      reset params s =
        s\<lparr>emitted := emitted s @
           [if connected s then EmitReset params else FetchReset params]\<rparr>)"
proof -
  let ?s = "exec evs useSimulation"
  have inv: "driver_inv ?s"
    by (rule driver_inv_reachable)
  have st: "stop ?s = ?s\<lparr>runningRef := False, sim_running := False, intervalRef := None, timers := []\<rparr>"
    using inv by (rule stop_stopped)
  have fields: "\<not> runningRef (reset params ?s) \<and> \<not> sim_running (reset params ?s) \<and>
      intervalRef (reset params ?s) = None \<and> timers (reset params ?s) = []"
  proof (cases "runningRef ?s")
    case True
    then show ?thesis
      by (simp add: reset_running st)
  next
    case False
    then show ?thesis
      using inv by (auto simp add: reset_stopped driver_inv_def split: option.splits)
  qed
  then have "exec (replicate n Tick) (reset params ?s) = reset params ?s"
    by (simp add: ticks_stopped)
  then show ?thesis
    using fields by (simp add: reset_running reset_stopped emitted_stop)
qed

theorem reset_stops_driver_witness:
  "runningRef (exec [Run] useSimulation) \<and>
   timers (exec [Run] useSimulation) = [1] \<and>
   timers (reset Map.empty (exec [Run] useSimulation)) = [] \<and>
   \<not> runningRef (reset Map.empty (exec [Run] useSimulation)) \<and>
   emitted (reset Map.empty (exec [Run] useSimulation)) = [FetchReset Map.empty] \<and>
   reset Map.empty useSimulation = useSimulation\<lparr>emitted := [FetchReset Map.empty]\<rparr>"
  using reset_stops_driver [of Map.empty "[Run]" 1 "exec [Run] useSimulation"]
        reset_stops_driver [of Map.empty "[Run]" 1 useSimulation]
  by (simp add: exec_def run_def stop_def clear_if_set_def clearInterval_def setInterval_def
      useSimulation_def Let_def)

section \<open>The REST fallback\<close>




section \<open>The history window\<close>

lemma slice_last_append: "slice_last n (slice_last n xs @ ys) = slice_last n (xs @ ys)"
  by (cases "length xs \<le> n") (simp_all add: slice_last_def add.commute)

lemma track_history_pos:
  "0 < st \<Longrightarrow> track_history st m h = slice_last MAX_HISTORY (h @ [newEntry st m])"
  by (simp add: track_history_def slice_last_def Let_def)

lemma length_slice_last: "length (slice_last n xs) = min n (length xs)"
  by (simp add: slice_last_def)

lemma AnalysisTab_nonzero:
  assumes "p_step p \<noteq> 0" "case deps c of None \<Rightarrow> True | Some (st, r) \<Rightarrow> st \<noteq> p_step p"
  shows "AnalysisTab p c =
    \<lparr> history = slice_last MAX_HISTORY (history c @ [entry_of p]),
      deps = Some (p_step p, p_ref p) \<rparr>"
  using assms
  by (auto simp add: AnalysisTab_def Let_def reset_history_def track_history_pos entry_of_def
      split: option.splits)

lemma renders_nonzero:
  assumes "\<forall>p\<in>set ps. p_step p \<noteq> 0" "distinct (map p_step ps)"
    "case deps c of None \<Rightarrow> True | Some (st, r) \<Rightarrow> st \<notin> p_step ` set ps"
    "length (history c) \<le> MAX_HISTORY"
  shows "history (renders ps c) = slice_last MAX_HISTORY (history c @ map entry_of ps)"
  using assms
proof (induction ps arbitrary: c)
  case Nil
  then show ?case by (simp add: renders_def slice_last_def)
next
  case (Cons p ps)
  have fresh: "case deps c of None \<Rightarrow> True | Some (st, r) \<Rightarrow> st \<noteq> p_step p"
    using Cons.prems(3) by (auto split: option.splits)
  have step: "AnalysisTab p c =
    \<lparr> history = slice_last MAX_HISTORY (history c @ [entry_of p]),
      deps = Some (p_step p, p_ref p) \<rparr>"
    using Cons.prems(1) fresh by (simp add: AnalysisTab_nonzero)
  have "history (renders ps (AnalysisTab p c)) =
      slice_last MAX_HISTORY (history (AnalysisTab p c) @ map entry_of ps)"
  proof (rule Cons.IH)
    show "\<forall>p\<in>set ps. p_step p \<noteq> 0" using Cons.prems(1) by simp
    show "distinct (map p_step ps)" using Cons.prems(2) by simp
    show "case deps (AnalysisTab p c) of None \<Rightarrow> True
          | Some (st, r) \<Rightarrow> st \<notin> p_step ` set ps"
      using Cons.prems(2) by (simp add: step)
    show "length (history (AnalysisTab p c)) \<le> MAX_HISTORY"
      by (simp add: step length_slice_last)
  qed
  then show ?case
    by (simp add: renders_def step slice_last_append)
qed

lemma track_history_nonempty: "0 < st \<Longrightarrow> track_history st m h \<noteq> []"
  by (simp add: track_history_def slice_last_def MAX_HISTORY_def Let_def)

lemma tab_inv_mounted: "tab_inv mounted"
  by (simp add: tab_inv_def mounted_def)

lemma tab_inv_AnalysisTab: "tab_inv c \<Longrightarrow> tab_inv (AnalysisTab p c)"
proof (cases "p_step p = 0")
  case True
  assume "tab_inv c"
  with True show ?thesis
    by (auto simp add: tab_inv_def AnalysisTab_def Let_def reset_history_def track_history_def
        split: option.splits)
next
  case False
  assume "tab_inv c"
  with False show ?thesis
    using track_history_nonempty [of "p_step p" "p_metrics p" "history c"]
    by (auto simp add: tab_inv_def AnalysisTab_def Let_def reset_history_def
        split: option.splits)
qed

lemma tab_inv_renders: "tab_inv c \<Longrightarrow> tab_inv (renders ps c)"
  unfolding renders_def by (induction ps arbitrary: c) (simp_all add: tab_inv_AnalysisTab)

lemma AnalysisTab_zero: "tab_inv c \<Longrightarrow> p_step p = 0 \<Longrightarrow> history (AnalysisTab p c) = []"
  by (auto simp add: tab_inv_def AnalysisTab_def Let_def reset_history_def track_history_def
      split: option.splits)

text \<open>
  C3: in every state of the component in which the window is empty (whatever was rendered
  since it was mounted), 105 renders in a row whose steps are non-zero and distinct leave
  exactly 100 entries: those of the last 100 renders, in the order of arrival, the first
  five gone.
\<close>

theorem history_window_eviction:
  assumes "length ps = 105" "\<forall>p\<in>set ps. p_step p \<noteq> 0" "distinct (map p_step ps)"
    "history (renders qs mounted) = []"
  shows "length (history (renders ps (renders qs mounted))) = 100 \<and>
         history (renders ps (renders qs mounted)) =
           map (\<lambda>p. newEntry (p_step p) (p_metrics p)) (drop 5 ps)"
proof -
  let ?c = "renders qs mounted"
  have "tab_inv ?c"
    using tab_inv_mounted by (rule tab_inv_renders)
  then have "case deps ?c of None \<Rightarrow> True | Some (st, r) \<Rightarrow> st = 0"
    using assms(4) by (auto simp add: tab_inv_def split: option.splits)
  then have "case deps ?c of None \<Rightarrow> True | Some (st, r) \<Rightarrow> st \<notin> p_step ` set ps"
    using assms(2) by (auto split: option.splits)
  then have "history (renders ps ?c) = slice_last MAX_HISTORY (history ?c @ map entry_of ps)"
    using assms(2,3,4) by (intro renders_nonzero) simp_all
  then have "history (renders ps ?c) = map entry_of (drop 5 ps)"
    using assms(1,4) by (simp add: slice_last_def MAX_HISTORY_def drop_map)
  then show ?thesis
    using assms(1) by (simp add: entry_of_def)
qed

theorem history_window_eviction_witness:
  "history (renders [numbered_props 200, numbered_props 0] mounted) = [] \<and>
   length (history (renders (map numbered_props [1..<106])
                      (renders [numbered_props 200, numbered_props 0] mounted))) = 100 \<and>
   history (renders (map numbered_props [1..<106])
              (renders [numbered_props 200, numbered_props 0] mounted)) =
     map (\<lambda>n. newEntry n initial_metrics) [6..<106]"
proof -
  have empty: "history (renders [numbered_props 200, numbered_props 0] mounted) = []"
    by (simp add: numbered_props_def renders_def mounted_def AnalysisTab_def Let_def
        reset_history_def track_history_def MAX_HISTORY_def)
  have "[6..<106] = drop 5 [1..<106]"
    by simp
  then show ?thesis
    using empty
      history_window_eviction [of "map numbered_props [1..<106]"
        "[numbered_props 200, numbered_props 0]"]
    by (simp add: numbered_props_def distinct_map o_def inj_on_def drop_map)
qed

text \<open>
  C7: the reset effect at step 0 empties any window; a render with step 0 leaves the
  window empty after any renders since the component was mounted, and for every window
  whose last rendered step was not 0 (or that was never rendered).
\<close>

theorem history_reset_on_step_zero:
  "reset_history 0 h = [] \<and>
   history (AnalysisTab (p\<lparr>p_step := 0\<rparr>) (renders ps mounted)) = [] \<and>
   ((case deps c of None \<Rightarrow> True | Some (st, r) \<Rightarrow> st \<noteq> 0) \<longrightarrow>
      history (AnalysisTab (p\<lparr>p_step := 0\<rparr>) c) = [])"
proof -
  have "tab_inv (renders ps mounted)"
    using tab_inv_mounted by (rule tab_inv_renders)
  then have "history (AnalysisTab (p\<lparr>p_step := 0\<rparr>) (renders ps mounted)) = []"
    by (simp add: AnalysisTab_zero)
  moreover have "history (AnalysisTab (p\<lparr>p_step := 0\<rparr>) c) = []"
    if "case deps c of None \<Rightarrow> True | Some (st, r) \<Rightarrow> st \<noteq> 0"
    using that
    by (auto simp add: AnalysisTab_def Let_def reset_history_def track_history_def
        split: option.splits)
  ultimately show ?thesis
    by (simp add: reset_history_def)
qed

theorem history_reset_on_step_zero_witness:
  "history (renders [numbered_props 1, numbered_props 2] mounted) =
     [newEntry 1 initial_metrics, newEntry 2 initial_metrics] \<and>
   history (AnalysisTab (numbered_props 0) (renders [numbered_props 1, numbered_props 2] mounted)) = []"
  using history_reset_on_step_zero
    [of "[]" "numbered_props 0" "[numbered_props 1, numbered_props 2]"
        "renders [numbered_props 1, numbered_props 2] mounted"]
  by (simp add: numbered_props_def renders_def mounted_def AnalysisTab_def Let_def
      reset_history_def track_history_def MAX_HISTORY_def)

text \<open>
  C8: on an empty window every derived series is empty, each chart is the no-data
  placeholder and the summary is null (it renders nothing); no trend is computed, so
  nothing is divided. The correlation chart asks for more data.
\<close>

theorem empty_window_views:
  "mempoolData [] = [] \<and> feeData [] = [] \<and> blocksData [] = [] \<and> hashrateData [] = [] \<and>
   difficultyData [] = [] \<and>
   MiniChart (Some []) = NoDataYet \<and> MiniChart None = NoDataYet \<and>
   StatsSummary (Some []) = None \<and> StatsSummary None = None \<and>
   AnalysisTab_view (history mounted) =
     \<lparr> summary = None, mempoolChart = NoDataYet, feeChart = NoDataYet,
       blocksChart = NoDataYet, hashrateChart = NoDataYet, correlation = NeedMoreData \<rparr>"
  by (simp add: mempoolData_def feeData_def blocksData_def hashrateData_def difficultyData_def
      MiniChart_def StatsSummary_def CorrelationChart_def AnalysisTab_view_def mounted_def)

section \<open>The hypothesis bar\<close>

text \<open>
  C9 as stated fails: with \<open>baseline\<close> active the bar is not shown, but the tooltip of
  the scenario selector still carries the scenario's hypothesis, so hypothesis text is
  surfaced for \<open>baseline\<close>.
\<close>

theorem baseline_hypothesis_counterexample:
  "sc_id baseline_scenario = ''baseline'' \<and>
   hypothesis_bar baseline_scenario = None \<and>
   selector_title [baseline_scenario, fee_spike] baseline_scenario =
     Some ''Normal network conditions''"
  by (simp add: baseline_scenario_def hypothesis_bar_def selector_title_def)

text \<open>
  C9, amended: the bar is shown exactly when the scenario's id is not \<open>baseline\<close> and its
  hypothesis is neither null nor empty; the text it shows is then that hypothesis; for
  \<open>baseline\<close> the bar is never shown. The tooltip of the scenario selector, there
  whenever the list of scenarios is not empty, carries the active scenario's hypothesis
  for every id, \<open>baseline\<close> too, when that is neither null nor empty, and
  \<open>Select a scenario\<close> otherwise.
\<close>

theorem hypothesis_surfacing_policy:
  "(hypothesis_bar sc \<noteq> None \<longleftrightarrow>
      sc_id sc \<noteq> ''baseline'' \<and> hypothesis sc \<noteq> None \<and> hypothesis sc \<noteq> Some []) \<and>
   (hypothesis_bar sc \<noteq> None \<longrightarrow>
      hypothesis_bar sc = Some (sc_name sc, the (hypothesis sc))) \<and>
   (sc_id sc = ''baseline'' \<longrightarrow> hypothesis_bar sc = None) \<and>
   (scs \<noteq> [] \<and> hypothesis sc \<noteq> None \<and> hypothesis sc \<noteq> Some [] \<longrightarrow>
      selector_title scs sc = hypothesis sc) \<and>
   (scs \<noteq> [] \<and> (hypothesis sc = None \<or> hypothesis sc = Some []) \<longrightarrow>
      selector_title scs sc = Some ''Select a scenario'') \<and>
   selector_title [] sc = None"
  by (auto simp add: hypothesis_bar_def selector_title_def split: option.splits)

theorem hypothesis_surfacing_policy_witness:
  "hypothesis_bar fee_spike = Some (''Fee Spike'', ''Demand shock raises fees'') \<and>
   selector_title [baseline_scenario, fee_spike] fee_spike = Some ''Demand shock raises fees'' \<and>
   hypothesis_bar (fee_spike\<lparr>sc_id := ''baseline''\<rparr>) = None \<and>
   selector_title [baseline_scenario, fee_spike] (fee_spike\<lparr>hypothesis := None\<rparr>) =
     Some ''Select a scenario''"
  using hypothesis_surfacing_policy [of fee_spike "[baseline_scenario, fee_spike]"]
        hypothesis_surfacing_policy
          [of "fee_spike\<lparr>sc_id := ''baseline''\<rparr>" "[baseline_scenario, fee_spike]"]
        hypothesis_surfacing_policy
          [of "fee_spike\<lparr>hypothesis := None\<rparr>" "[baseline_scenario, fee_spike]"]
  by (simp add: fee_spike_def hypothesis_bar_def)

end
